theory Spec2Isabelle
  imports Main "HOL-Library.Word" "HOL-Library.Product_Lexorder" "HOL-Library.Multiset"
begin

section \<open>Data model of \<^verbatim>\<open>util/graph_loader.hpp\<close>\<close>

text \<open>
  The loaders copy raw bytes from a stream into the memory of typed objects
  (\<^verbatim>\<open>reinterpret_cast<char *>\<close>). A stream is therefore a list of bytes, an object that is
  read into is the list of its bytes, and the declarations that \<^verbatim>\<open>graph_loader.hpp\<close> includes
  but that are not part of the file itself (sizes, field layout, default constructors, the
  fingerprint test, the constant \<^verbatim>\<open>TRAVEL_MODE_INACCESSIBLE\<close>) are the fields of a record
  \<open>layout\<close> that every loader takes as its first argument.
\<close>

type_synonym byte = "8 word"
type_synonym NodeID = "32 word"
type_synonym EdgeID = "32 word"

text \<open>\<^verbatim>\<open>extractor::QueryNode\<close>, built by the node loader from (lon, lat, node_id).\<close>

record QueryNode =
  lon :: int
  lat :: int
  node_id :: nat

text \<open>\<^verbatim>\<open>extractor::ExternalMemoryNode\<close>: the on-disk node with its two flags.\<close>

record ExternalMemoryNode = QueryNode +
  barrier :: bool
  traffic_lights :: bool

text \<open>\<^verbatim>\<open>extractor::NodeBasedEdge\<close>: the fields the edge loader looks at.\<close>

record NodeBasedEdge =
  source :: NodeID
  target :: NodeID
  weight :: int
  forward :: bool
  travel_mode :: byte

text \<open>\<^verbatim>\<open>extractor::TurnRestriction\<close>: three internal node ids.\<close>

record TurnRestriction =
  via_node :: NodeID
  from_node :: NodeID
  to_node :: NodeID

text \<open>
  The declarations the loaders use from headers that are not part of the file:
  \<^item> \<^verbatim>\<open>util/fingerprint.hpp\<close>: the size of a \<^verbatim>\<open>FingerPrint\<close>, the bytes of
    \<^verbatim>\<open>FingerPrint::GetValid()\<close>, and \<^verbatim>\<open>TestContractor\<close> on the bytes of two fingerprints;
  \<^item> the platform: how four bytes are an \<^verbatim>\<open>unsigned\<close>;
  \<^item> \<^verbatim>\<open>extractor/external_memory_node.hpp\<close>: the size of an \<^verbatim>\<open>ExternalMemoryNode\<close>, the
    fields in its bytes, and the bytes of a default-constructed one;
  \<^item> \<^verbatim>\<open>extractor/node_based_edge.hpp\<close>: the size of a \<^verbatim>\<open>NodeBasedEdge\<close>, the fields in
    its bytes, the bytes of an edge, and the value-initialised edge of \<^verbatim>\<open>resize\<close>;
  \<^item> \<^verbatim>\<open>TRAVEL_MODE_INACCESSIBLE\<close>;
  \<^item> \<^verbatim>\<open>extractor/restriction.hpp\<close>: the same for a \<^verbatim>\<open>TurnRestriction\<close>.
\<close>

record layout =
  sizeof_FingerPrint :: nat
  GetValid :: "byte list"
  TestContractor :: "byte list \<Rightarrow> byte list \<Rightarrow> bool"
  u32_of_bytes :: "byte list \<Rightarrow> 32 word"
  sizeof_ExternalMemoryNode :: nat
  node_of_bytes :: "byte list \<Rightarrow> ExternalMemoryNode"
  default_node :: "byte list"
  sizeof_NodeBasedEdge :: nat
  edge_of_bytes :: "byte list \<Rightarrow> NodeBasedEdge"
  bytes_of_edge :: "NodeBasedEdge \<Rightarrow> byte list"
  default_edge :: NodeBasedEdge
  TRAVEL_MODE_INACCESSIBLE :: byte
  sizeof_TurnRestriction :: nat
  restriction_of_bytes :: "byte list \<Rightarrow> TurnRestriction"
  default_restriction :: TurnRestriction

text \<open>
  What a load call can end with instead of a result: the exception of a
  \<^verbatim>\<open>std::istream\<close> whose exception mask is set, the two errors of the scoped file reader,
  and the abort of a failed \<^verbatim>\<open>BOOST_ASSERT\<close>.
\<close>

datatype error = IosFailure | IoError | FormatError | AssertionFailed

text \<open>The lines written through \<^verbatim>\<open>SimpleLogger\<close>, without their formatting.\<close>

datatype log_entry =
    Warning_different_build
  | Importing_nodes NodeID
  | And_edges EdgeID
  | Validating_loaded_edges
  | Graph_loaded_ok nat

section \<open>\<^verbatim>\<open>std::istream::read\<close>\<close>

text \<open>
  The stream: the bytes not yet consumed, whether its state is other than \<^verbatim>\<open>goodbit\<close>,
  and whether its exception mask contains \<^verbatim>\<open>failbit\<close> (it does not unless the caller
  asked for it).

  \<^verbatim>\<open>read(buf, cnt)\<close> on a stream that is not good extracts nothing and sets \<^verbatim>\<open>failbit\<close>;
  on a good stream it copies \<open>cnt\<close> bytes, or, when fewer are left, copies what is left and
  sets \<^verbatim>\<open>eofbit | failbit\<close>. Setting \<^verbatim>\<open>failbit\<close> throws when the mask contains it.
  The bytes of the destination that are not overwritten keep their value: \<open>buf\<close> is the
  content of the destination before the call, and the result is its first \<open>cnt\<close> bytes
  after the call.
\<close>

record istream =
  data :: "byte list"
  failed :: bool
  throws :: bool

definition istream_read :: "istream \<Rightarrow> byte list \<Rightarrow> nat \<Rightarrow> error + (istream \<times> byte list)" where
  "istream_read s buf cnt =
     (if failed s then (if throws s then Inl IosFailure else Inr (s, take cnt buf))
      else if cnt \<le> length (data s)
        then Inr (s\<lparr>data := drop cnt (data s)\<rparr>, take cnt (data s))
      else if throws s then Inl IosFailure
      else Inr (s\<lparr>data := [], failed := True\<rparr>,
                data s @ take (cnt - length (data s)) (drop (length (data s)) buf)))"

section \<open>\<^verbatim>\<open>loadNodesFromFile\<close>\<close>

text \<open>
  The node that \<^verbatim>\<open>node_array.emplace_back(current_node.lon, current_node.lat,
  current_node.node_id)\<close> constructs.
\<close>

definition public_node :: "ExternalMemoryNode \<Rightarrow> QueryNode" where
  "public_node current_node =
     \<lparr>lon = lon current_node, lat = lat current_node, node_id = node_id current_node\<rparr>"

text \<open>
  The loop \<^verbatim>\<open>for (NodeID i = 0; i < n; ++i)\<close>. The object \<^verbatim>\<open>current_node\<close> is
  declared outside the loop, so a read that does not overwrite it leaves the previous
  record in it.
\<close>

function read_nodes ::
  "layout \<Rightarrow> NodeID \<Rightarrow> NodeID \<Rightarrow> istream \<Rightarrow> byte list \<Rightarrow> NodeID list \<Rightarrow> NodeID list \<Rightarrow>
   QueryNode list \<Rightarrow> error + (istream \<times> NodeID list \<times> NodeID list \<times> QueryNode list)" where
  "read_nodes L i n s current_node bs ts ns =
     (if i < n then
        (case istream_read s current_node (sizeof_ExternalMemoryNode L) of
           Inl e \<Rightarrow> Inl e
         | Inr (s', current_node') \<Rightarrow>
             (let c = node_of_bytes L current_node';
                  ns' = ns @ [public_node c];
                  bs' = (if barrier c then bs @ [i] else bs);
                  ts' = (if traffic_lights c then ts @ [i] else ts)
              in read_nodes L (i + 1) n s' current_node' bs' ts' ns'))
      else Inr (s, bs, ts, ns))"
  by pat_completeness auto
termination
proof (relation "measure (\<lambda>(L, i, n, s, c, bs, ts, ns). unat n - unat i)")
  show "wf (measure (\<lambda>(L, i, n, s, c, bs, ts, ns). unat n - unat i))"
    by simp
next
  fix L :: layout and i n :: NodeID and s :: istream and current_node :: "byte list"
    and bs ts :: "NodeID list" and ns :: "QueryNode list" and x2 x y xa xb xc xd
  assume lt: "i < n"
  then have "unat i < unat n"
    by (simp add: word_less_nat_alt)
  moreover have "unat n < 2 ^ 32"
    using unsigned_less [of n] by simp
  ultimately have "unat i + unat (1 :: 32 word) < 2 ^ LENGTH(32)"
    by simp
  then have "unat (i + 1) = unat i + unat (1 :: 32 word)"
    by (simp only: unat_add_lem)
  with \<open>unat i < unat n\<close> have "unat n - unat (i + 1) < unat n - unat i"
    by simp
  then show "((L, i + 1, n, x, y, xb, xc, xa), (L, i, n, s, current_node, bs, ts, ns))
      \<in> measure (\<lambda>(L, i, n, s, c, bs, ts, ns). unat n - unat i)"
    by simp
qed

declare read_nodes.simps [simp del]

record nodes_loaded =
  nodes_return :: NodeID
  nodes_stream :: istream
  barrier_node_list :: "NodeID list"
  traffic_light_node_list :: "NodeID list"
  node_array :: "QueryNode list"
  nodes_log :: "log_entry list"

text \<open>
  \<^verbatim>\<open>fingerprint_loaded\<close> and \<^verbatim>\<open>n\<close> are declared without an initial value; the bytes they
  hold before the read are the arguments \<open>fingerprint_init\<close> and \<open>n_init\<close>. The three
  containers \<open>bs\<close> (\<^verbatim>\<open>barrier_node_list\<close>), \<open>ts\<close> (\<^verbatim>\<open>traffic_light_node_list\<close>) and
  \<open>ns\<close> (\<^verbatim>\<open>node_array\<close>) are the caller's and are appended to. \<^verbatim>\<open>reserve\<close> and
  \<^verbatim>\<open>shrink_to_fit\<close> change the capacity of a container, not its elements, and running out
  of memory is not modelled.
\<close>

definition loadNodesFromFile ::
  "layout \<Rightarrow> byte list \<Rightarrow> byte list \<Rightarrow> istream \<Rightarrow> NodeID list \<Rightarrow> NodeID list \<Rightarrow> QueryNode list \<Rightarrow>
   error + nodes_loaded" where
  "loadNodesFromFile L fingerprint_init n_init input_stream bs ts ns =
     (case istream_read input_stream fingerprint_init (sizeof_FingerPrint L) of
        Inl e \<Rightarrow> Inl e
      | Inr (s1, fingerprint_loaded) \<Rightarrow>
          (let log1 = (if \<not> TestContractor L fingerprint_loaded (GetValid L)
                       then [Warning_different_build] else [])
           in case istream_read s1 n_init 4 of
                Inl e \<Rightarrow> Inl e
              | Inr (s2, n_bytes) \<Rightarrow>
                  (let n = u32_of_bytes L n_bytes;
                       log2 = log1 @ [Importing_nodes n]
                   in case read_nodes L 0 n s2 (default_node L) bs ts ns of
                        Inl e \<Rightarrow> Inl e
                      | Inr (s3, bs', ts', ns') \<Rightarrow>
                          Inr \<lparr>nodes_return = n, nodes_stream = s3,
                               barrier_node_list = bs', traffic_light_node_list = ts',
                               node_array = ns', nodes_log = log2\<rparr>)))"

section \<open>\<^verbatim>\<open>loadEdgesFromFile\<close>\<close>

text \<open>
  \<^verbatim>\<open>edge_list.resize(m)\<close>: a longer container is cut, a shorter one is filled up with
  value-initialised edges.
\<close>

definition resize :: "'a list \<Rightarrow> nat \<Rightarrow> 'a \<Rightarrow> 'a list" where
  "resize xs m d = take m xs @ replicate (m - length xs) d"

text \<open>
  The element at position \<open>j\<close> of a container whose storage holds the bytes \<open>buf\<close>:
  the object in the bytes from \<open>j * sz\<close> up to \<open>(j + 1) * sz\<close>.
\<close>

definition objects_of :: "(byte list \<Rightarrow> 'a) \<Rightarrow> nat \<Rightarrow> nat \<Rightarrow> byte list \<Rightarrow> 'a list" where
  "objects_of dec sz m buf = map (\<lambda>j. dec (take sz (drop (j * sz) buf))) [0..<m]"

text \<open>
  The comparison given to \<^verbatim>\<open>tbb::parallel_sort\<close>, and the key it orders by. The sort is
  \<open>sort_key\<close> on that key. Where two edges have the same key the library may leave them in
  either order; then the run aborts, on the multi-edge assertion at the latest, and which
  assertion fails first is all that the order decides. The model has therefore one
  \<open>AssertionFailed\<close> for every assertion, and the outcome of the assertions is the same for
  every order the library may produce (lemma \<open>check_edges_any_sort\<close> below).
\<close>

definition edge_less :: "NodeBasedEdge \<Rightarrow> NodeBasedEdge \<Rightarrow> bool" where
  "edge_less lhs rhs \<longleftrightarrow>
     source lhs < source rhs \<or> (source lhs = source rhs \<and> target lhs < target rhs)"

definition edge_key :: "NodeBasedEdge \<Rightarrow> NodeID \<times> NodeID" where
  "edge_key e = (source e, target e)"

text \<open>The loop \<^verbatim>\<open>for (auto i = 1u; i < edge_list.size(); ++i)\<close> with its five assertions.\<close>

function check_edges :: "layout \<Rightarrow> nat \<Rightarrow> NodeBasedEdge list \<Rightarrow> error + unit" where
  "check_edges L i edge_list =
     (if i < length edge_list then
        (let edge = edge_list ! i; prev_edge = edge_list ! (i - 1) in
         if \<not> weight edge > 0 then Inl AssertionFailed
         else if \<not> forward edge then Inl AssertionFailed
         else if \<not> travel_mode edge \<noteq> TRAVEL_MODE_INACCESSIBLE L then Inl AssertionFailed
         else if \<not> source edge \<noteq> target edge then Inl AssertionFailed
         else if \<not> (source edge \<noteq> source prev_edge \<or> target edge \<noteq> target prev_edge)
           then Inl AssertionFailed
         else check_edges L (i + 1) edge_list)
      else Inr ())"
  by pat_completeness auto
termination
  by (relation "measure (\<lambda>(L, i, edge_list). length edge_list - i)") auto

declare check_edges.simps [simp del]

record edges_loaded =
  edges_return :: NodeID
  edges_stream :: istream
  edge_list :: "NodeBasedEdge list"
  edges_log :: "log_entry list"

text \<open>
  \<open>NDEBUG\<close> is the build: when it is defined, \<^verbatim>\<open>BOOST_ASSERT\<close> expands to nothing
  and the block under \<^verbatim>\<open>#ifndef NDEBUG\<close> is absent. \<open>m_init\<close> holds the bytes of the
  uninitialised \<^verbatim>\<open>m\<close>. The product \<^verbatim>\<open>m * sizeof(extractor::NodeBasedEdge)\<close> is
  computed in \<^verbatim>\<open>std::size_t\<close> (64 bits), where it cannot wrap.
\<close>

definition loadEdgesFromFile ::
  "layout \<Rightarrow> bool \<Rightarrow> byte list \<Rightarrow> istream \<Rightarrow> NodeBasedEdge list \<Rightarrow> error + edges_loaded" where
  "loadEdgesFromFile L NDEBUG m_init input_stream edges =
     (case istream_read input_stream m_init 4 of
        Inl e \<Rightarrow> Inl e
      | Inr (s1, m_bytes) \<Rightarrow>
          (let m = u32_of_bytes L m_bytes;
               resized = resize edges (unat m) (default_edge L);
               log1 = [And_edges m]
           in case istream_read s1 (concat (map (bytes_of_edge L) resized))
                     (unat m * sizeof_NodeBasedEdge L) of
                Inl e \<Rightarrow> Inl e
              | Inr (s2, buf) \<Rightarrow>
                  (let loaded = objects_of (edge_of_bytes L) (sizeof_NodeBasedEdge L) (unat m) buf
                   in if NDEBUG then
                        Inr \<lparr>edges_return = m, edges_stream = s2, edge_list = loaded,
                             edges_log = log1 @ [Graph_loaded_ok (length loaded)]\<rparr>
                      else if \<not> length loaded > 0 then Inl AssertionFailed
                      else
                        (let sorted_edges = sort_key edge_key loaded in
                         case check_edges L 1 sorted_edges of
                           Inl e \<Rightarrow> Inl e
                         | Inr _ \<Rightarrow>
                             Inr \<lparr>edges_return = m, edges_stream = s2, edge_list = sorted_edges,
                                  edges_log = log1 @ [Validating_loaded_edges,
                                    Graph_loaded_ok (length sorted_edges)]\<rparr>))))"

section \<open>\<^verbatim>\<open>loadRestrictionsFromFile\<close>\<close>

text \<open>
  Modelled from the spec: \<^verbatim>\<open>storage::io::FileReader\<close> (\<^verbatim>\<open>storage/io.hpp\<close>) is not among
  the sources. The specification describes it as a scoped binary reader: it "opens a path;
  fails with an I/O error if unreadable", "optionally verifies the fingerprint header on
  open", its \<^verbatim>\<open>readElementCount\<close> "decodes one fixed-width unsigned integer, advancing the
  stream", its \<^verbatim>\<open>readInto(buffer, byteLength)\<close> "fails with a format error if fewer bytes
  remain than requested", "short reads are errors" and a fingerprint mismatch is fatal for
  the restriction loader. The file system is a map from paths to file contents.
\<close>

datatype FingerprintFlag = VerifyFingerprint | HasNoFingerprint

record FileReader =
  remaining :: "byte list"

text \<open>
  Modelled from the spec: the constructor of \<^verbatim>\<open>FileReader\<close>, missing from the sources.
  "Opens a path; fails with an I/O error if unreadable. Optionally verifies the fingerprint
  header on open." The fingerprint validator "reads a fixed-size tag and compares it
  field-wise to a compiled-in expected value", and a mismatch is a format error that is
  fatal "for the restriction loader when verification is requested".
\<close>

definition FileReader_open ::
  "layout \<Rightarrow> (string \<rightharpoonup> byte list) \<Rightarrow> string \<Rightarrow> FingerprintFlag \<Rightarrow> error + FileReader" where
  "FileReader_open L fs filename flag =
     (case fs filename of
        None \<Rightarrow> Inl IoError
      | Some content \<Rightarrow>
          (if flag = VerifyFingerprint then
             (if length content < sizeof_FingerPrint L then Inl FormatError
              else if \<not> TestContractor L (take (sizeof_FingerPrint L) content) (GetValid L)
                then Inl FormatError
              else Inr \<lparr>remaining = drop (sizeof_FingerPrint L) content\<rparr>)
           else Inr \<lparr>remaining = content\<rparr>))"

text \<open>
  Modelled from the spec: \<^verbatim>\<open>FileReader::ReadElementCount32\<close>, missing from the sources.
  It "decodes one fixed-width unsigned integer, advancing the stream"; "short reads are
  errors, never silently truncated".
\<close>

definition ReadElementCount32 :: "layout \<Rightarrow> FileReader \<Rightarrow> error + (FileReader \<times> 32 word)" where
  "ReadElementCount32 L file =
     (if length (remaining file) < 4 then Inl FormatError
      else Inr (file\<lparr>remaining := drop 4 (remaining file)\<rparr>,
                u32_of_bytes L (take 4 (remaining file))))"

text \<open>
  Modelled from the spec: \<^verbatim>\<open>FileReader::ReadInto\<close>, missing from the sources.
  \<^verbatim>\<open>readInto(buffer, byteLength)\<close> "fails with a format error if fewer bytes remain than
  requested"; otherwise the result is the bytes it puts into the buffer.
\<close>

definition ReadInto :: "FileReader \<Rightarrow> nat \<Rightarrow> error + (FileReader \<times> byte list)" where
  "ReadInto file byte_length =
     (if length (remaining file) < byte_length then Inl FormatError
      else Inr (file\<lparr>remaining := drop byte_length (remaining file)\<rparr>,
                take byte_length (remaining file)))"

text \<open>
  The loader itself, from the source. It returns the outcome together with
  \<^verbatim>\<open>restriction_list\<close> as the call leaves it, also when the call throws: the list is the
  caller's object. The product \<^verbatim>\<open>number_of_usable_restrictions *
  sizeof(extractor::TurnRestriction)\<close> is computed in \<^verbatim>\<open>std::size_t\<close>.
\<close>

definition loadRestrictionsFromFile ::
  "layout \<Rightarrow> (string \<rightharpoonup> byte list) \<Rightarrow> string \<Rightarrow> TurnRestriction list \<Rightarrow>
   (error + 32 word) \<times> TurnRestriction list" where
  "loadRestrictionsFromFile L fs filename restriction_list =
     (case FileReader_open L fs filename VerifyFingerprint of
        Inl e \<Rightarrow> (Inl e, restriction_list)
      | Inr file \<Rightarrow>
          (case ReadElementCount32 L file of
             Inl e \<Rightarrow> (Inl e, restriction_list)
           | Inr (file1, number_of_usable_restrictions) \<Rightarrow>
               (let resized = resize restriction_list (unat number_of_usable_restrictions)
                                (default_restriction L)
                in if number_of_usable_restrictions > 0 then
                     (case ReadInto file1
                             (unat number_of_usable_restrictions * sizeof_TurnRestriction L) of
                        Inl e \<Rightarrow> (Inl e, resized)
                      | Inr (file2, buf) \<Rightarrow>
                          (Inr number_of_usable_restrictions,
                           objects_of (restriction_of_bytes L) (sizeof_TurnRestriction L)
                             (unat number_of_usable_restrictions) buf))
                   else (Inr number_of_usable_restrictions, resized))))"

section \<open>A concrete layout\<close>

text \<open>
  One layout on which the loaders can be run: a four-byte fingerprint compared byte by
  byte, little-endian 32-bit counts, and records of one byte per field (a node is lon, lat,
  node id, barrier, traffic lights; an edge is source, target, weight, forward, travel
  mode; a restriction is via, from, to).
\<close>

fun le32 :: "byte list \<Rightarrow> 32 word" where
  "le32 (b0 # b1 # b2 # b3 # _) =
     ucast b0 + 256 * ucast b1 + 65536 * ucast b2 + 16777216 * ucast b3"
| "le32 _ = 0"

definition byte_node :: "byte list \<Rightarrow> ExternalMemoryNode" where
  "byte_node b =
     \<lparr>lon = sint (b ! 0), lat = sint (b ! 1), node_id = unat (b ! 2),
      barrier = (b ! 3 \<noteq> 0), traffic_lights = (b ! 4 \<noteq> 0)\<rparr>"

definition byte_edge :: "byte list \<Rightarrow> NodeBasedEdge" where
  "byte_edge b =
     \<lparr>source = ucast (b ! 0), target = ucast (b ! 1), weight = sint (b ! 2),
      forward = (b ! 3 \<noteq> 0), travel_mode = b ! 4\<rparr>"

definition edge_bytes :: "NodeBasedEdge \<Rightarrow> byte list" where
  "edge_bytes e =
     [ucast (source e), ucast (target e), word_of_int (weight e),
      (if forward e then 1 else 0), travel_mode e]"

definition byte_restriction :: "byte list \<Rightarrow> TurnRestriction" where
  "byte_restriction b =
     \<lparr>via_node = ucast (b ! 0), from_node = ucast (b ! 1), to_node = ucast (b ! 2)\<rparr>"

definition byte_layout :: layout where
  "byte_layout =
     \<lparr>sizeof_FingerPrint = 4,
      GetValid = [79, 83, 82, 77],
      TestContractor = (\<lambda>loaded valid. loaded = valid),
      u32_of_bytes = le32,
      sizeof_ExternalMemoryNode = 5,
      node_of_bytes = byte_node,
      default_node = [0, 0, 0, 0, 0],
      sizeof_NodeBasedEdge = 5,
      edge_of_bytes = byte_edge,
      bytes_of_edge = edge_bytes,
      default_edge = \<lparr>source = 0, target = 0, weight = 0, forward = False, travel_mode = 0\<rparr>,
      TRAVEL_MODE_INACCESSIBLE = 0,
      sizeof_TurnRestriction = 3,
      restriction_of_bytes = byte_restriction,
      default_restriction = \<lparr>via_node = 0, from_node = 0, to_node = 0\<rparr>\<rparr>"

section \<open>Reading from a stream that holds enough bytes\<close>

lemma istream_read_full:
  "\<not> failed s \<Longrightarrow> data s = c @ rest \<Longrightarrow> length c = cnt \<Longrightarrow>
   istream_read s buf cnt = Inr (s\<lparr>data := rest\<rparr>, c)"
  by (simp add: istream_read_def)

lemma word_succ_unat: "(i :: 32 word) < n \<Longrightarrow> unat (i + 1) = Suc (unat i)"
proof -
  assume lt: "i < n"
  then have "unat i < unat n"
    by (simp add: word_less_nat_alt)
  moreover have "unat n < 2 ^ 32"
    using unsigned_less [of n] by simp
  ultimately have "unat i + unat (1 :: 32 word) < 2 ^ LENGTH(32)"
    by simp
  then have "unat (i + 1) = unat i + unat (1 :: 32 word)"
    by (simp only: unat_add_lem)
  then show ?thesis by simp
qed

lemma flagged_step:
  "map (\<lambda>k. i + of_nat k) (filter (\<lambda>k. P ((r # recs) ! k)) [0..<Suc (length recs)]) =
   (if P r then [i :: 32 word] else []) @
   map (\<lambda>k. i + 1 + of_nat k) (filter (\<lambda>k. P (recs ! k)) [0..<length recs])"
proof -
  have "[0..<Suc (length recs)] = 0 # map Suc [0..<length recs]"
    by (simp add: upt_conv_Cons map_Suc_upt del: upt_Suc)
  then show ?thesis
    by (simp add: filter_map o_def add.assoc del: upt_Suc)
qed

lemma read_nodes_records:
  assumes "\<not> failed s" and "data s = concat recs @ rest"
    and "\<forall>r \<in> set recs. length r = sizeof_ExternalMemoryNode L"
    and "unat i + length recs = unat n"
  shows "read_nodes L i n s cur bs ts ns =
     Inr (s\<lparr>data := rest\<rparr>,
          bs @ map (\<lambda>k. i + of_nat k) (filter (\<lambda>k. barrier (node_of_bytes L (recs ! k))) [0..<length recs]),
          ts @ map (\<lambda>k. i + of_nat k) (filter (\<lambda>k. traffic_lights (node_of_bytes L (recs ! k))) [0..<length recs]),
          ns @ map (\<lambda>r. public_node (node_of_bytes L r)) recs)"
  using assms
proof (induction recs arbitrary: i s cur bs ts ns)
  case Nil
  then have "\<not> i < n"
    by (simp add: word_less_nat_alt)
  with Nil show ?case
    by (simp add: read_nodes.simps)
next
  case (Cons r recs)
  from Cons.prems have lt: "i < n"
    by (simp add: word_less_nat_alt)
  have rd: "istream_read s cur (sizeof_ExternalMemoryNode L) = Inr (s\<lparr>data := concat recs @ rest\<rparr>, r)"
    using Cons.prems by (intro istream_read_full) simp_all
  have next_i: "unat (i + 1) + length recs = unat n"
    using Cons.prems word_succ_unat [OF lt] by simp
  have IH: "read_nodes L (i + 1) n (s\<lparr>data := concat recs @ rest\<rparr>) r bs' ts' ns' =
     Inr (s\<lparr>data := rest\<rparr>,
          bs' @ map (\<lambda>k. i + 1 + of_nat k) (filter (\<lambda>k. barrier (node_of_bytes L (recs ! k))) [0..<length recs]),
          ts' @ map (\<lambda>k. i + 1 + of_nat k) (filter (\<lambda>k. traffic_lights (node_of_bytes L (recs ! k))) [0..<length recs]),
          ns' @ map (\<lambda>r. public_node (node_of_bytes L r)) recs)" for bs' ts' ns'
    using Cons.IH [of "s\<lparr>data := concat recs @ rest\<rparr>" "i + 1" r bs' ts' ns'] Cons.prems next_i
    by simp
  show ?case
    apply (subst read_nodes.simps)
    apply (simp only: lt rd if_True sum.case prod.case Let_def IH flagged_step [where P = "\<lambda>r. barrier (node_of_bytes L r)"]
        flagged_step [where P = "\<lambda>r. traffic_lights (node_of_bytes L r)"] length_Cons)
    apply simp
    done
qed

text \<open>The node loader on a stream that holds the fingerprint, the count and that many records.\<close>

lemma loadNodes_records:
  assumes good: "\<not> failed s"
    and stream: "data s = fp @ hdr @ concat recs @ rest"
    and fp: "length fp = sizeof_FingerPrint L"
    and hdr: "length hdr = 4" "u32_of_bytes L hdr = n"
    and recs: "length recs = unat n" "\<forall>r \<in> set recs. length r = sizeof_ExternalMemoryNode L"
  shows "loadNodesFromFile L fingerprint_init n_init s bs ts ns =
     Inr \<lparr>nodes_return = n, nodes_stream = s\<lparr>data := rest\<rparr>,
          barrier_node_list =
            bs @ map of_nat (filter (\<lambda>k. barrier (node_of_bytes L (recs ! k))) [0..<unat n]),
          traffic_light_node_list =
            ts @ map of_nat (filter (\<lambda>k. traffic_lights (node_of_bytes L (recs ! k))) [0..<unat n]),
          node_array = ns @ map (\<lambda>r. public_node (node_of_bytes L r)) recs,
          nodes_log = (if TestContractor L fp (GetValid L) then [] else [Warning_different_build])
                        @ [Importing_nodes n]\<rparr>"
proof -
  have r1: "istream_read s fingerprint_init (sizeof_FingerPrint L) =
      Inr (s\<lparr>data := hdr @ concat recs @ rest\<rparr>, fp)"
    using good stream fp by (intro istream_read_full) simp_all
  have r2: "istream_read (s\<lparr>data := hdr @ concat recs @ rest\<rparr>) n_init 4 =
      Inr (s\<lparr>data := concat recs @ rest\<rparr>, hdr)"
    using good hdr istream_read_full [of "s\<lparr>data := hdr @ concat recs @ rest\<rparr>" hdr "concat recs @ rest" 4 n_init]
    by simp
  have r3: "read_nodes L 0 n (s\<lparr>data := concat recs @ rest\<rparr>) (default_node L) bs ts ns =
      Inr (s\<lparr>data := rest\<rparr>,
          bs @ map of_nat (filter (\<lambda>k. barrier (node_of_bytes L (recs ! k))) [0..<unat n]),
          ts @ map of_nat (filter (\<lambda>k. traffic_lights (node_of_bytes L (recs ! k))) [0..<unat n]),
          ns @ map (\<lambda>r. public_node (node_of_bytes L r)) recs)"
    using read_nodes_records [of "s\<lparr>data := concat recs @ rest\<rparr>" recs rest L 0 n "default_node L" bs ts ns]
      good recs by simp
  show ?thesis
    unfolding loadNodesFromFile_def
    by (simp only: r1 r2 r3 sum.case prod.case Let_def hdr) simp
qed

lemma set_flagged:
  assumes "m < 2 ^ 32"
  shows "(x :: 32 word) \<in> set (map of_nat (filter P [0..<m])) \<longleftrightarrow> unat x < m \<and> P (unat x)"
proof
  assume "x \<in> set (map of_nat (filter P [0..<m]))"
  then obtain k where k: "k < m" "P k" "x = of_nat k"
    by auto
  with assms have "unat x = k"
    by (simp add: unat_of_nat)
  with k show "unat x < m \<and> P (unat x)"
    by simp
next
  assume "unat x < m \<and> P (unat x)"
  then have "unat x \<in> set (filter P [0..<m])"
    by simp
  then have "of_nat (unat x) \<in> (of_nat :: nat \<Rightarrow> 32 word) ` set (filter P [0..<m])"
    by (rule imageI)
  then show "x \<in> set (map of_nat (filter P [0..<m]))"
    by simp
qed

lemma word_succ_gt: "(i :: 32 word) < n \<Longrightarrow> i < i + 1"
  by (simp add: word_less_nat_alt word_succ_unat)

lemma read_nodes_ids:
  "read_nodes L i n s cur bs ts ns = Inr (s', bs', ts', ns') \<Longrightarrow>
   \<exists>bn tn. bs' = bs @ bn \<and> ts' = ts @ tn \<and> sorted_wrt (<) bn \<and> sorted_wrt (<) tn \<and>
     (\<forall>x \<in> set bn. i \<le> x \<and> x < n) \<and> (\<forall>x \<in> set tn. i \<le> x \<and> x < n)"
proof (induction L i n s cur bs ts ns arbitrary: s' bs' ts' ns' rule: read_nodes.induct)
  case (1 L i n s cur bs ts ns)
  show ?case
  proof (cases "i < n")
    case False
    with "1.prems" show ?thesis
      by (simp add: read_nodes.simps)
  next
    case lt: True
    from "1.prems" lt obtain s1 cur1 where
      rd: "istream_read s cur (sizeof_ExternalMemoryNode L) = Inr (s1, cur1)"
      by (subst (asm) read_nodes.simps) (auto split: sum.splits)
    define c where "c = node_of_bytes L cur1"
    define ns1 where "ns1 = ns @ [public_node c]"
    define bs1 where "bs1 = (if barrier c then bs @ [i] else bs)"
    define ts1 where "ts1 = (if traffic_lights c then ts @ [i] else ts)"
    have rec: "read_nodes L (i + 1) n s1 cur1 bs1 ts1 ns1 = Inr (s', bs', ts', ns')"
      using "1.prems" lt rd
      by (subst (asm) read_nodes.simps) (simp add: Let_def c_def ns1_def bs1_def ts1_def)
    from "1.IH" [OF lt rd refl c_def ns1_def bs1_def ts1_def rec]
    obtain bn tn where new: "bs' = bs1 @ bn" "ts' = ts1 @ tn" "sorted_wrt (<) bn" "sorted_wrt (<) tn"
      "\<forall>x \<in> set bn. i + 1 \<le> x \<and> x < n" "\<forall>x \<in> set tn. i + 1 \<le> x \<and> x < n"
      by blast
    have step: "i < i + 1"
      using lt by (rule word_succ_gt)
    let ?bn = "(if barrier c then [i] else []) @ bn"
    let ?tn = "(if traffic_lights c then [i] else []) @ tn"
    have "bs' = bs @ ?bn" "ts' = ts @ ?tn"
      using new by (simp_all add: bs1_def ts1_def)
    moreover have "sorted_wrt (<) ?bn" "sorted_wrt (<) ?tn"
      using new step by (auto simp: sorted_wrt_append)
    moreover have "\<forall>x \<in> set ?bn. i \<le> x \<and> x < n" "\<forall>x \<in> set ?tn. i \<le> x \<and> x < n"
      using new step lt by auto
    ultimately show ?thesis
      by blast
  qed
qed

lemma loadNodes_ids:
  assumes "loadNodesFromFile L fingerprint_init n_init s [] [] ns = Inr res"
  shows "sorted_wrt (<) (barrier_node_list res) \<and> sorted_wrt (<) (traffic_light_node_list res) \<and>
     (\<forall>x \<in> set (barrier_node_list res). x < nodes_return res) \<and>
     (\<forall>x \<in> set (traffic_light_node_list res). x < nodes_return res)"
proof -
  from assms obtain s2 n s3 cur bs' ts' ns' where
    loop: "read_nodes L 0 n s2 cur [] [] ns = Inr (s3, bs', ts', ns')"
    and res: "nodes_return res = n" "barrier_node_list res = bs'" "traffic_light_node_list res = ts'"
    unfolding loadNodesFromFile_def
    by (auto simp: Let_def split: sum.splits)
  from read_nodes_ids [OF loop] res show ?thesis
    by auto
qed

section \<open>The edge loader: bulk read, sort and assertions\<close>

lemma objects_of_records:
  assumes "\<forall>r \<in> set recs. length r = sz"
  shows "objects_of dec sz (length recs) (concat recs @ junk) = map dec recs"
  using assms
proof (induction recs)
  case Nil
  then show ?case
    by (simp add: objects_of_def)
next
  case (Cons r recs)
  have upt: "[0..<Suc (length recs)] = 0 # map Suc [0..<length recs]"
    by (simp add: upt_conv_Cons map_Suc_upt del: upt_Suc)
  have "objects_of dec sz (Suc (length recs)) (r @ concat recs @ junk) =
      dec r # objects_of dec sz (length recs) (concat recs @ junk)"
    using Cons.prems unfolding objects_of_def upt
    by (simp add: o_def)
  with Cons show ?case
    by simp
qed

lemma check_edges_outcome:
  "check_edges L i es = Inl AssertionFailed \<or> check_edges L i es = Inr ()"
  by (induction L i es rule: check_edges.induct)
     (subst (1 2) check_edges.simps, simp add: Let_def)

lemma check_edges_iff:
  "check_edges L i es = Inr () \<longleftrightarrow>
     (\<forall>k. i \<le> k \<and> k < length es \<longrightarrow>
        weight (es ! k) > 0 \<and> forward (es ! k) \<and>
        travel_mode (es ! k) \<noteq> TRAVEL_MODE_INACCESSIBLE L \<and>
        source (es ! k) \<noteq> target (es ! k) \<and>
        (source (es ! k) \<noteq> source (es ! (k - 1)) \<or> target (es ! k) \<noteq> target (es ! (k - 1))))"
proof (induction L i es rule: check_edges.induct)
  case (1 L i es)
  let ?ok = "\<lambda>k. weight (es ! k) > 0 \<and> forward (es ! k) \<and>
        travel_mode (es ! k) \<noteq> TRAVEL_MODE_INACCESSIBLE L \<and>
        source (es ! k) \<noteq> target (es ! k) \<and>
        (source (es ! k) \<noteq> source (es ! (k - 1)) \<or> target (es ! k) \<noteq> target (es ! (k - 1)))"
  show ?case
  proof (cases "i < length es")
    case False
    then have "check_edges L i es = Inr ()"
      by (subst check_edges.simps) simp
    moreover from False have "\<not> (i \<le> k \<and> k < length es)" for k
      by linarith
    ultimately show ?thesis
      by blast
  next
    case lt: True
    show ?thesis
    proof (cases "?ok i")
      case False
      then have "check_edges L i es = Inl AssertionFailed"
        using lt by (subst check_edges.simps) (auto simp: Let_def)
      moreover have "\<not> (\<forall>k. i \<le> k \<and> k < length es \<longrightarrow> ?ok k)"
        using False lt by blast
      ultimately show ?thesis
        by simp
    next
      case ok: True
      then have unfold: "check_edges L i es = check_edges L (i + 1) es"
        using lt by (subst check_edges.simps) (simp add: Let_def)
      have IH: "check_edges L (i + 1) es = Inr () \<longleftrightarrow>
          (\<forall>k. i + 1 \<le> k \<and> k < length es \<longrightarrow> ?ok k)"
        using "1.IH" [OF lt refl refl] ok by simp
      have "(\<forall>k. i \<le> k \<and> k < length es \<longrightarrow> ?ok k) \<longleftrightarrow>
          (\<forall>k. i + 1 \<le> k \<and> k < length es \<longrightarrow> ?ok k)"
      proof
        assume "\<forall>k. i \<le> k \<and> k < length es \<longrightarrow> ?ok k"
        then show "\<forall>k. i + 1 \<le> k \<and> k < length es \<longrightarrow> ?ok k"
          by simp
      next
        assume rest: "\<forall>k. i + 1 \<le> k \<and> k < length es \<longrightarrow> ?ok k"
        show "\<forall>k. i \<le> k \<and> k < length es \<longrightarrow> ?ok k"
        proof (intro allI impI)
          fix k assume "i \<le> k \<and> k < length es"
          then consider "k = i" | "i + 1 \<le> k \<and> k < length es"
            by linarith
          then show "?ok k"
          proof cases
            case 1
            with ok show ?thesis by simp
          next
            case 2
            with rest show ?thesis by blast
          qed
        qed
      qed
      with unfold IH show ?thesis
        by simp
    qed
  qed
qed

lemma length_concat_records:
  "\<forall>r \<in> set recs. length r = sz \<Longrightarrow> length (concat recs) = length recs * sz"
  by (induction recs) simp_all

lemma loadEdges_records:
  assumes good: "\<not> failed s"
    and stream: "data s = hdr @ concat recs @ rest"
    and hdr: "length hdr = 4" "u32_of_bytes L hdr = m"
    and recs: "length recs = unat m" "\<forall>r \<in> set recs. length r = sizeof_NodeBasedEdge L"
  shows "loadEdgesFromFile L NDEBUG m_init s edges =
     (if NDEBUG then
        Inr \<lparr>edges_return = m, edges_stream = s\<lparr>data := rest\<rparr>,
             edge_list = map (edge_of_bytes L) recs,
             edges_log = [And_edges m, Graph_loaded_ok (unat m)]\<rparr>
      else if m = 0 then Inl AssertionFailed
      else
        (case check_edges L 1 (sort_key edge_key (map (edge_of_bytes L) recs)) of
           Inl e \<Rightarrow> Inl e
         | Inr u \<Rightarrow>
             Inr \<lparr>edges_return = m, edges_stream = s\<lparr>data := rest\<rparr>,
                  edge_list = sort_key edge_key (map (edge_of_bytes L) recs),
                  edges_log = [And_edges m, Validating_loaded_edges, Graph_loaded_ok (unat m)]\<rparr>))"
proof -
  have r1: "istream_read s m_init 4 = Inr (s\<lparr>data := concat recs @ rest\<rparr>, hdr)"
    using good stream hdr by (intro istream_read_full) simp_all
  have len: "length (concat recs) = unat m * sizeof_NodeBasedEdge L"
    using length_concat_records [OF recs(2)] recs(1) by simp
  have r2: "istream_read (s\<lparr>data := concat recs @ rest\<rparr>) buf (unat m * sizeof_NodeBasedEdge L) =
      Inr (s\<lparr>data := rest\<rparr>, concat recs)" for buf
    using good len
      istream_read_full [of "s\<lparr>data := concat recs @ rest\<rparr>" "concat recs" rest
        "unat m * sizeof_NodeBasedEdge L" buf]
    by simp
  have objs: "objects_of (edge_of_bytes L) (sizeof_NodeBasedEdge L) (unat m) (concat recs) =
      map (edge_of_bytes L) recs"
    using objects_of_records [OF recs(2), of "edge_of_bytes L" "[]"] recs(1) by simp
  have zero: "unat m = 0 \<longleftrightarrow> m = 0"
    by (simp add: unat_eq_0)
  show ?thesis
    unfolding loadEdgesFromFile_def
    by (simp only: r1 r2 objs sum.case prod.case Let_def hdr)
       (simp add: recs(1) zero split: sum.splits)
qed

lemma sorted_duplicate_adjacent:
  "sorted xs \<Longrightarrow> \<not> distinct xs \<Longrightarrow> \<exists>k. Suc k < length xs \<and> xs ! k = xs ! Suc k"
proof (induction xs)
  case Nil
  then show ?case by simp
next
  case (Cons x xs)
  show ?case
  proof (cases "x \<in> set xs")
    case True
    then obtain y ys where xs: "xs = y # ys"
      by (cases xs) auto
    from Cons.prems(1) True xs have "x \<le> y" "y \<le> x"
      by auto
    then have "(x # xs) ! 0 = (x # xs) ! Suc 0"
      using xs by simp
    moreover have "Suc 0 < length (x # xs)"
      using xs by simp
    ultimately show ?thesis
      by blast
  next
    case False
    with Cons.prems have "sorted xs" "\<not> distinct xs"
      by simp_all
    from Cons.IH [OF this] obtain k where "Suc k < length xs" "xs ! k = xs ! Suc k"
      by blast
    then have "Suc (Suc k) < length (x # xs) \<and> (x # xs) ! Suc k = (x # xs) ! Suc (Suc k)"
      by simp
    then show ?thesis
      by blast
  qed
qed

lemma edge_less_key: "edge_less lhs rhs \<longleftrightarrow> edge_key lhs < edge_key rhs"
  by (auto simp: edge_less_def edge_key_def)

lemma check_edges_sorted_duplicate:
  assumes "sorted (map edge_key ys)" and "\<not> distinct (map edge_key ys)"
  shows "check_edges L 1 ys = Inl AssertionFailed"
proof -
  from assms obtain k where k: "Suc k < length (map edge_key ys)"
    "map edge_key ys ! k = map edge_key ys ! Suc k"
    using sorted_duplicate_adjacent by blast
  then have "edge_key (ys ! Suc k) = edge_key (ys ! (Suc k - 1))" "Suc k < length ys"
    by simp_all
  then have "\<not> (source (ys ! Suc k) \<noteq> source (ys ! (Suc k - 1)) \<or>
      target (ys ! Suc k) \<noteq> target (ys ! (Suc k - 1)))" "1 \<le> Suc k \<and> Suc k < length ys"
    by (simp_all add: edge_key_def)
  then have "check_edges L 1 ys \<noteq> Inr ()"
    unfolding check_edges_iff by blast
  with check_edges_outcome [of L 1 ys] show ?thesis
    by simp
qed

lemma filter_distinct_key:
  "distinct (map f xs) \<Longrightarrow> k \<in> set xs \<Longrightarrow> filter (\<lambda>x. f k = f x) xs = [k]"
proof (induction xs)
  case Nil
  then show ?case by simp
next
  case (Cons x xs)
  show ?case
  proof (cases "k = x")
    case True
    from Cons.prems(1) have "\<forall>y \<in> set xs. f x \<noteq> f y"
      by auto
    then have "filter (\<lambda>y. f x = f y) xs = []"
      by (simp add: filter_empty_conv)
    with True show ?thesis
      by simp
  next
    case False
    with Cons.prems have in_xs: "k \<in> set xs" and dist: "distinct (map f xs)"
      by auto
    from Cons.prems(1) have "f x \<notin> f ` set xs"
      by simp
    moreover from in_xs have "f k \<in> f ` set xs"
      by (rule imageI)
    ultimately have "f k \<noteq> f x"
      by auto
    moreover have "filter (\<lambda>x. f k = f x) xs = [k]"
      using dist in_xs by (rule Cons.IH)
    ultimately show ?thesis
      by simp
  qed
qed

text \<open>
  Any outcome of the sort, that is any arrangement \<open>ys\<close> of the loaded edges in which the
  keys are in order, gives the assertions the same outcome as \<open>sort_key\<close>.
\<close>

lemma sort_key_edge_less:
  "sorted_wrt (\<lambda>a b. \<not> edge_less b a) (sort_key edge_key es) \<and>
   mset (sort_key edge_key es) = mset es"
proof -
  have "sorted (map edge_key (sort_key edge_key es))"
    by (rule sorted_sort_key)
  then have "sorted_wrt (\<lambda>a b. edge_key a \<le> edge_key b) (sort_key edge_key es)"
    by (simp add: sorted_wrt_map)
  then have "sorted_wrt (\<lambda>a b. \<not> edge_less b a) (sort_key edge_key es)"
    by (rule sorted_wrt_mono_rel [rotated]) (simp add: edge_less_key not_less)
  then show ?thesis
    by simp
qed

lemma check_edges_any_sort:
  assumes perm: "mset ys = mset es"
    and ordered: "sorted_wrt (\<lambda>a b. \<not> edge_less b a) ys"
  shows "check_edges L 1 ys = check_edges L 1 (sort_key edge_key es)"
proof -
  have "sorted_wrt (\<lambda>a b. edge_key a \<le> edge_key b) ys"
    using ordered by (rule sorted_wrt_mono_rel [rotated]) (simp add: edge_less_key not_less)
  then have sorted_ys: "sorted (map edge_key ys)"
    by (simp add: sorted_wrt_map)
  have keys: "mset (map edge_key ys) = mset (map edge_key es)"
    using perm by simp
  show ?thesis
  proof (cases "distinct (map edge_key es)")
    case True
    have "sort_key edge_key es = ys"
    proof (rule properties_for_sort_key)
      show "mset ys = mset es"
        by (rule perm)
      show "sorted (map edge_key ys)"
        by (rule sorted_ys)
      fix k assume "k \<in> set ys"
      then have "k \<in> set es"
        using mset_eq_setD [OF perm] by simp
      moreover have "distinct (map edge_key ys)"
        using True mset_eq_imp_distinct_iff [OF keys] by simp
      ultimately show "filter (\<lambda>x. edge_key k = edge_key x) ys =
          filter (\<lambda>x. edge_key k = edge_key x) es"
        using True \<open>k \<in> set ys\<close> by (simp add: filter_distinct_key)
    qed
    then show ?thesis
      by simp
  next
    case False
    then have "\<not> distinct (map edge_key ys)"
      using mset_eq_imp_distinct_iff [OF keys] by simp
    then have "check_edges L 1 ys = Inl AssertionFailed"
      using sorted_ys by (intro check_edges_sorted_duplicate)
    moreover have "\<not> distinct (map edge_key (sort_key edge_key es))"
    proof -
      have "mset (map edge_key (sort_key edge_key es)) = mset (map edge_key es)"
        by simp
      from mset_eq_imp_distinct_iff [OF this] False show ?thesis
        by simp
    qed
    then have "check_edges L 1 (sort_key edge_key es) = Inl AssertionFailed"
      by (intro check_edges_sorted_duplicate sorted_sort_key)
    ultimately show ?thesis
      by simp
  qed
qed

lemma check_edges_duplicate:
  assumes "i < j" and "j < length es" and "edge_key (es ! i) = edge_key (es ! j)"
  shows "check_edges L 1 (sort_key edge_key es) = Inl AssertionFailed"
proof -
  have "\<not> distinct (map edge_key es)"
  proof
    assume "distinct (map edge_key es)"
    moreover have "i < length (map edge_key es)" "j < length (map edge_key es)" "i \<noteq> j"
      using assms by simp_all
    ultimately have "map edge_key es ! i \<noteq> map edge_key es ! j"
      unfolding distinct_conv_nth by blast
    with assms show False
      by simp
  qed
  moreover have "mset (map edge_key (sort_key edge_key es)) = mset (map edge_key es)"
    by simp
  ultimately have "\<not> distinct (map edge_key (sort_key edge_key es))"
    using mset_eq_imp_distinct_iff [of "map edge_key (sort_key edge_key es)" "map edge_key es"]
    by simp
  then show ?thesis
    by (intro check_edges_sorted_duplicate sorted_sort_key)
qed

section \<open>Streams with the default exception mask\<close>

text \<open>
  With the default exception mask neither the node loader nor the edge loader of a build
  without assertions has a failing path: whatever the stream holds, they return the count
  they decoded and a container with that many new elements.
\<close>

lemma istream_read_default_mask:
  assumes "\<not> throws s"
  obtains s' buf' where "istream_read s buf cnt = Inr (s', buf')" and "\<not> throws s'"
proof -
  have "\<exists>s' buf'. istream_read s buf cnt = Inr (s', buf') \<and> \<not> throws s'"
    using assms by (simp add: istream_read_def)
  with that show thesis
    by blast
qed

lemma read_nodes_default_mask:
  "\<not> throws s \<Longrightarrow>
   \<exists>s' bs' ts' ns'. read_nodes L i n s cur bs ts ns = Inr (s', bs', ts', ns') \<and>
     length ns' = length ns + (unat n - unat i)"
proof (induction L i n s cur bs ts ns rule: read_nodes.induct)
  case (1 L i n s cur bs ts ns)
  show ?case
  proof (cases "i < n")
    case False
    then have "unat n - unat i = 0"
      by (simp add: word_less_nat_alt)
    with False show ?thesis
      by (subst read_nodes.simps) simp
  next
    case lt: True
    from "1.prems" obtain s1 cur1 where
      rd: "istream_read s cur (sizeof_ExternalMemoryNode L) = Inr (s1, cur1)" and mask: "\<not> throws s1"
      by (rule istream_read_default_mask)
    define c where "c = node_of_bytes L cur1"
    define ns1 where "ns1 = ns @ [public_node c]"
    define bs1 where "bs1 = (if barrier c then bs @ [i] else bs)"
    define ts1 where "ts1 = (if traffic_lights c then ts @ [i] else ts)"
    from "1.IH" [OF lt rd refl c_def ns1_def bs1_def ts1_def mask]
    obtain s' bs' ts' ns' where
      rec: "read_nodes L (i + 1) n s1 cur1 bs1 ts1 ns1 = Inr (s', bs', ts', ns')"
      and len: "length ns' = length ns1 + (unat n - unat (i + 1))"
      by blast
    have "read_nodes L i n s cur bs ts ns = Inr (s', bs', ts', ns')"
      using lt rd rec
      by (subst read_nodes.simps) (simp add: Let_def c_def ns1_def bs1_def ts1_def)
    moreover have "length ns' = length ns + (unat n - unat i)"
      using len lt word_succ_unat [OF lt] by (simp add: ns1_def word_less_nat_alt)
    ultimately show ?thesis
      by blast
  qed
qed

lemma loadNodes_default_mask:
  assumes "\<not> throws s"
  shows "\<exists>res. loadNodesFromFile L fingerprint_init n_init s bs ts ns = Inr res \<and>
     length (node_array res) = length ns + unat (nodes_return res)"
proof -
  from assms obtain s1 fp where r1: "istream_read s fingerprint_init (sizeof_FingerPrint L) = Inr (s1, fp)"
    and m1: "\<not> throws s1"
    by (rule istream_read_default_mask)
  from m1 obtain s2 nb where r2: "istream_read s1 n_init 4 = Inr (s2, nb)" and m2: "\<not> throws s2"
    by (rule istream_read_default_mask)
  from read_nodes_default_mask [OF m2, of L 0 "u32_of_bytes L nb" "default_node L" bs ts ns]
  obtain s3 bs' ts' ns' where
    "read_nodes L 0 (u32_of_bytes L nb) s2 (default_node L) bs ts ns = Inr (s3, bs', ts', ns')"
    "length ns' = length ns + unat (u32_of_bytes L nb)"
    by auto
  then show ?thesis
    unfolding loadNodesFromFile_def by (simp add: r1 r2 Let_def)
qed

lemma loadEdges_default_mask:
  assumes "\<not> throws s"
  shows "\<exists>res. loadEdgesFromFile L True m_init s edges = Inr res \<and>
     length (edge_list res) = unat (edges_return res)"
proof -
  from assms obtain s1 mb where r1: "istream_read s m_init 4 = Inr (s1, mb)" and m1: "\<not> throws s1"
    by (rule istream_read_default_mask)
  from m1 obtain s2 buf where
    "istream_read s1
       (concat (map (bytes_of_edge L) (resize edges (unat (u32_of_bytes L mb)) (default_edge L))))
       (unat (u32_of_bytes L mb) * sizeof_NodeBasedEdge L) = Inr (s2, buf)"
    by (rule istream_read_default_mask)
  then show ?thesis
    unfolding loadEdgesFromFile_def by (simp add: r1 Let_def objects_of_def)
qed

section \<open>The node loader on a complete stream\<close>

text \<open>
  C4. The stream holds a fingerprint, a count \<open>n\<close> and \<open>n\<close> node records, and the node
  container is empty when the loader is called (containers are created empty). Then the
  loader returns \<open>n\<close>, the node container has exactly \<open>n\<close> elements, and the element at
  position \<open>i\<close> is the node built from (lon, lat, node_id) of record \<open>i\<close>.
\<close>

theorem node_loader_returns_n_nodes:
  assumes "\<not> failed s"
    and "data s = fp @ hdr @ concat recs @ rest"
    and "length fp = sizeof_FingerPrint L"
    and "length hdr = 4" and "u32_of_bytes L hdr = n"
    and "length recs = unat n"
    and "\<forall>r \<in> set recs. length r = sizeof_ExternalMemoryNode L"
  shows "\<exists>res. loadNodesFromFile L fingerprint_init n_init s bs ts [] = Inr res \<and>
           nodes_return res = n \<and>
           length (node_array res) = unat n \<and>
           (\<forall>i < unat n. node_array res ! i = public_node (node_of_bytes L (recs ! i)))"
  using assms
  by (simp add: loadNodes_records [where fp = fp and hdr = hdr and recs = recs and rest = rest])

theorem node_loader_returns_n_nodes_witness:
  "\<exists>res. loadNodesFromFile byte_layout [] []
           \<lparr>data = [79, 83, 82, 77, 2, 0, 0, 0, 10, 20, 7, 1, 0, 11, 21, 8, 0, 1],
            failed = False, throws = False\<rparr> [] [] [] = Inr res \<and>
         nodes_return res = 2 \<and>
         length (node_array res) = 2 \<and>
         node_array res ! 0 = \<lparr>lon = 10, lat = 20, node_id = 7\<rparr> \<and>
         node_array res ! 1 = \<lparr>lon = 11, lat = 21, node_id = 8\<rparr>"
proof -
  have two: "\<And>P. (\<forall>i < (2 :: nat). P i) = (P 0 \<and> P 1)"
    by (auto simp: less_2_cases_iff)
  show ?thesis
    using node_loader_returns_n_nodes
      [where s = "\<lparr>data = [79, 83, 82, 77, 2, 0, 0, 0, 10, 20, 7, 1, 0, 11, 21, 8, 0, 1],
                   failed = False, throws = False\<rparr>"
        and fp = "[79, 83, 82, 77]" and hdr = "[2, 0, 0, 0]"
        and recs = "[[10, 20, 7, 1, 0], [11, 21, 8, 0, 1]]" and rest = "[]"
        and L = byte_layout and n = 2 and bs = "[]" and ts = "[]"
        and fingerprint_init = "[]" and n_init = "[]"]
    by (simp add: byte_layout_def public_node_def byte_node_def two)
qed

text \<open>
  C5. With the barrier and traffic-light lists empty on entry: whenever the node loader
  returns, both lists are strictly increasing and every id in them is below the returned
  count; and on a stream that holds the count \<open>n\<close> and \<open>n\<close> records, an id \<open>i\<close> is in the
  barrier (traffic-light) list exactly when \<open>i < n\<close> and record \<open>i\<close> has its barrier
  (traffic-light) flag set.
\<close>

theorem barrier_and_traffic_light_lists:
  "(loadNodesFromFile L fingerprint_init n_init s [] [] ns = Inr res \<longrightarrow>
      sorted_wrt (<) (barrier_node_list res) \<and>
      sorted_wrt (<) (traffic_light_node_list res) \<and>
      (\<forall>x \<in> set (barrier_node_list res). x < nodes_return res) \<and>
      (\<forall>x \<in> set (traffic_light_node_list res). x < nodes_return res)) \<and>
   (\<not> failed s \<and> data s = fp @ hdr @ concat recs @ rest \<and>
    length fp = sizeof_FingerPrint L \<and> length hdr = 4 \<and> u32_of_bytes L hdr = n \<and>
    length recs = unat n \<and> (\<forall>r \<in> set recs. length r = sizeof_ExternalMemoryNode L) \<longrightarrow>
      (\<exists>res'. loadNodesFromFile L fingerprint_init n_init s [] [] ns = Inr res' \<and>
         nodes_return res' = n \<and>
         (\<forall>i. i \<in> set (barrier_node_list res') \<longleftrightarrow>
            i < n \<and> barrier (node_of_bytes L (recs ! unat i))) \<and>
         (\<forall>i. i \<in> set (traffic_light_node_list res') \<longleftrightarrow>
            i < n \<and> traffic_lights (node_of_bytes L (recs ! unat i)))))"
proof (rule conjI; rule impI)
  assume "loadNodesFromFile L fingerprint_init n_init s [] [] ns = Inr res"
  then show "sorted_wrt (<) (barrier_node_list res) \<and>
      sorted_wrt (<) (traffic_light_node_list res) \<and>
      (\<forall>x \<in> set (barrier_node_list res). x < nodes_return res) \<and>
      (\<forall>x \<in> set (traffic_light_node_list res). x < nodes_return res)"
    by (rule loadNodes_ids)
next
  assume wf: "\<not> failed s \<and> data s = fp @ hdr @ concat recs @ rest \<and>
    length fp = sizeof_FingerPrint L \<and> length hdr = 4 \<and> u32_of_bytes L hdr = n \<and>
    length recs = unat n \<and> (\<forall>r \<in> set recs. length r = sizeof_ExternalMemoryNode L)"
  have bound: "unat n < 2 ^ 32"
    using unsigned_less [of n] by simp
  let ?res = "\<lparr>nodes_return = n, nodes_stream = s\<lparr>data := rest\<rparr>,
      barrier_node_list =
        [] @ map of_nat (filter (\<lambda>k. barrier (node_of_bytes L (recs ! k))) [0..<unat n]),
      traffic_light_node_list =
        [] @ map of_nat (filter (\<lambda>k. traffic_lights (node_of_bytes L (recs ! k))) [0..<unat n]),
      node_array = ns @ map (\<lambda>r. public_node (node_of_bytes L r)) recs,
      nodes_log = (if TestContractor L fp (GetValid L) then [] else [Warning_different_build])
                    @ [Importing_nodes n]\<rparr>"
  have run: "loadNodesFromFile L fingerprint_init n_init s [] [] ns = Inr ?res"
  proof (rule loadNodes_records)
    show "\<not> failed s" and "data s = fp @ hdr @ concat recs @ rest"
      and "length fp = sizeof_FingerPrint L" and "length hdr = 4" and "u32_of_bytes L hdr = n"
      and "length recs = unat n" and "\<forall>r \<in> set recs. length r = sizeof_ExternalMemoryNode L"
      using wf by simp_all
  qed
  have "i \<in> set (barrier_node_list ?res) \<longleftrightarrow>
      i < n \<and> barrier (node_of_bytes L (recs ! unat i))" for i
    using set_flagged [OF bound, of i "\<lambda>k. barrier (node_of_bytes L (recs ! k))"]
    by (simp only: nodes_loaded.simps append_Nil word_less_nat_alt)
  moreover have "i \<in> set (traffic_light_node_list ?res) \<longleftrightarrow>
      i < n \<and> traffic_lights (node_of_bytes L (recs ! unat i))" for i
    using set_flagged [OF bound, of i "\<lambda>k. traffic_lights (node_of_bytes L (recs ! k))"]
    by (simp only: nodes_loaded.simps append_Nil word_less_nat_alt)
  moreover have "nodes_return ?res = n"
    by simp
  ultimately show "\<exists>res'. loadNodesFromFile L fingerprint_init n_init s [] [] ns = Inr res' \<and>
         nodes_return res' = n \<and>
         (\<forall>i. i \<in> set (barrier_node_list res') \<longleftrightarrow>
            i < n \<and> barrier (node_of_bytes L (recs ! unat i))) \<and>
         (\<forall>i. i \<in> set (traffic_light_node_list res') \<longleftrightarrow>
            i < n \<and> traffic_lights (node_of_bytes L (recs ! unat i)))"
    using run by blast
qed

theorem barrier_and_traffic_light_lists_witness:
  "\<exists>res. loadNodesFromFile byte_layout [] []
           \<lparr>data = [79, 83, 82, 77, 2, 0, 0, 0, 10, 20, 7, 1, 0, 11, 21, 8, 0, 1],
            failed = False, throws = False\<rparr> [] [] [] = Inr res \<and>
         nodes_return res = 2 \<and>
         barrier_node_list res = [0] \<and> traffic_light_node_list res = [1] \<and>
         sorted_wrt (<) (barrier_node_list res) \<and>
         sorted_wrt (<) (traffic_light_node_list res) \<and>
         (\<forall>x \<in> set (barrier_node_list res). x < nodes_return res) \<and>
         (\<forall>x \<in> set (traffic_light_node_list res). x < nodes_return res) \<and>
         (\<forall>i. i \<in> set (barrier_node_list res) \<longleftrightarrow>
            i < 2 \<and> barrier (byte_node ([[10, 20, 7, 1, 0], [11, 21, 8, 0, 1]] ! unat i))) \<and>
         (\<forall>i. i \<in> set (traffic_light_node_list res) \<longleftrightarrow>
            i < 2 \<and> traffic_lights (byte_node ([[10, 20, 7, 1, 0], [11, 21, 8, 0, 1]] ! unat i)))"
proof -
  let ?s = "\<lparr>data = [79, 83, 82, 77, 2, 0, 0, 0, 10, 20, 7, 1, 0, 11, 21, 8, 0, 1],
            failed = False, throws = False\<rparr>"
  let ?res = "\<lparr>nodes_return = 2, nodes_stream = \<lparr>data = [], failed = False, throws = False\<rparr>,
      barrier_node_list = [0], traffic_light_node_list = [1],
      node_array = [\<lparr>lon = 10, lat = 20, node_id = 7\<rparr>, \<lparr>lon = 11, lat = 21, node_id = 8\<rparr>],
      nodes_log = [Importing_nodes 2]\<rparr>"
  have run: "loadNodesFromFile byte_layout [] [] ?s [] [] [] = Inr ?res"
    by (simp add: loadNodesFromFile_def istream_read_def byte_layout_def read_nodes.simps
        byte_node_def public_node_def)
  have stream: "\<not> failed ?s \<and> data ?s = [79, 83, 82, 77] @ [2, 0, 0, 0] @
      concat [[10, 20, 7, 1, 0], [11, 21, 8, 0, 1]] @ [] \<and>
    length [79, 83, 82, 77 :: byte] = sizeof_FingerPrint byte_layout \<and>
    length [2, 0, 0, 0 :: byte] = 4 \<and> u32_of_bytes byte_layout [2, 0, 0, 0] = 2 \<and>
    length [[10, 20, 7, 1, 0], [11, 21, 8, 0, 1 :: byte]] = unat (2 :: 32 word) \<and>
    (\<forall>r \<in> set [[10, 20, 7, 1, 0], [11, 21, 8, 0, 1 :: byte]].
       length r = sizeof_ExternalMemoryNode byte_layout)"
    by (simp add: byte_layout_def)
  from barrier_and_traffic_light_lists
    [where L = byte_layout and fingerprint_init = "[]" and n_init = "[]" and s = ?s
      and ns = "[]" and res = ?res and fp = "[79, 83, 82, 77]" and hdr = "[2, 0, 0, 0]"
      and recs = "[[10, 20, 7, 1, 0], [11, 21, 8, 0, 1]]" and rest = "[]" and n = 2]
    run stream
  show ?thesis
    by (simp add: byte_layout_def)
qed

text \<open>
  C8. A node stream whose fingerprint fails the test against the expected value, and whose
  remaining bytes are a count and that many records, is loaded with the same return value,
  the same containers and the same stream position as the stream that differs from it only
  in carrying a fingerprint that passes; the one difference is the warning in the log.
\<close>

theorem node_loader_fingerprint_mismatch_warns:
  assumes "\<not> failed s"
    and "data s = fp @ hdr @ concat recs @ rest"
    and "length fp = sizeof_FingerPrint L"
    and "\<not> TestContractor L fp (GetValid L)"
    and "length fp' = sizeof_FingerPrint L"
    and "TestContractor L fp' (GetValid L)"
    and "length hdr = 4" and "u32_of_bytes L hdr = n"
    and "length recs = unat n"
    and "\<forall>r \<in> set recs. length r = sizeof_ExternalMemoryNode L"
  shows "\<exists>res. loadNodesFromFile L fingerprint_init n_init
                  (s\<lparr>data := fp' @ hdr @ concat recs @ rest\<rparr>) bs ts ns = Inr res \<and>
               nodes_log res = [Importing_nodes n] \<and>
               loadNodesFromFile L fingerprint_init n_init s bs ts ns =
                 Inr (res\<lparr>nodes_log := Warning_different_build # nodes_log res\<rparr>)"
proof -
  have bad: "loadNodesFromFile L fingerprint_init n_init s bs ts ns =
     Inr \<lparr>nodes_return = n, nodes_stream = s\<lparr>data := rest\<rparr>,
          barrier_node_list =
            bs @ map of_nat (filter (\<lambda>k. barrier (node_of_bytes L (recs ! k))) [0..<unat n]),
          traffic_light_node_list =
            ts @ map of_nat (filter (\<lambda>k. traffic_lights (node_of_bytes L (recs ! k))) [0..<unat n]),
          node_array = ns @ map (\<lambda>r. public_node (node_of_bytes L r)) recs,
          nodes_log = [Warning_different_build, Importing_nodes n]\<rparr>"
    using assms loadNodes_records [of s fp hdr recs rest L n fingerprint_init n_init bs ts ns]
    by simp
  have good: "loadNodesFromFile L fingerprint_init n_init
        (s\<lparr>data := fp' @ hdr @ concat recs @ rest\<rparr>) bs ts ns =
     Inr \<lparr>nodes_return = n, nodes_stream = s\<lparr>data := rest\<rparr>,
          barrier_node_list =
            bs @ map of_nat (filter (\<lambda>k. barrier (node_of_bytes L (recs ! k))) [0..<unat n]),
          traffic_light_node_list =
            ts @ map of_nat (filter (\<lambda>k. traffic_lights (node_of_bytes L (recs ! k))) [0..<unat n]),
          node_array = ns @ map (\<lambda>r. public_node (node_of_bytes L r)) recs,
          nodes_log = [Importing_nodes n]\<rparr>"
    using assms loadNodes_records [of "s\<lparr>data := fp' @ hdr @ concat recs @ rest\<rparr>" fp' hdr recs rest
        L n fingerprint_init n_init bs ts ns]
    by simp
  show ?thesis
    by (simp add: good bad)
qed

theorem node_loader_fingerprint_mismatch_warns_witness:
  "\<exists>res. loadNodesFromFile byte_layout [] []
           \<lparr>data = [79, 83, 82, 77, 1, 0, 0, 0, 10, 20, 7, 1, 0],
            failed = False, throws = False\<rparr> [] [] [] = Inr res \<and>
         nodes_log res = [Importing_nodes 1] \<and>
         loadNodesFromFile byte_layout [] []
           \<lparr>data = [0, 0, 0, 0, 1, 0, 0, 0, 10, 20, 7, 1, 0],
            failed = False, throws = False\<rparr> [] [] [] =
           Inr (res\<lparr>nodes_log := Warning_different_build # nodes_log res\<rparr>)"
  using node_loader_fingerprint_mismatch_warns
    [where L = byte_layout and fingerprint_init = "[]" and n_init = "[]"
      and s = "\<lparr>data = [0, 0, 0, 0, 1, 0, 0, 0, 10, 20, 7, 1, 0],
                 failed = False, throws = False\<rparr>"
      and fp = "[0, 0, 0, 0]" and fp' = "[79, 83, 82, 77]" and hdr = "[1, 0, 0, 0]"
      and recs = "[[10, 20, 7, 1, 0]]" and rest = "[]" and n = 1
      and bs = "[]" and ts = "[]" and ns = "[]"]
  by (simp add: byte_layout_def)

text \<open>
  C9. The node loader appends to the three containers it is given and clears none of them.
  The node container therefore ends with exactly \<open>n\<close> elements only if it was empty on
  entry, and the node of record \<open>i\<close>, whose recorded id is \<open>i\<close>, ends at position
  \<open>length ns + i\<close>, which is \<open>i\<close> only if the container was empty.
\<close>

theorem node_loader_appends_to_its_containers:
  assumes "\<not> failed s"
    and "data s = fp @ hdr @ concat recs @ rest"
    and "length fp = sizeof_FingerPrint L"
    and "length hdr = 4" and "u32_of_bytes L hdr = n"
    and "length recs = unat n"
    and "\<forall>r \<in> set recs. length r = sizeof_ExternalMemoryNode L"
  shows "\<exists>res. loadNodesFromFile L fingerprint_init n_init s bs ts ns = Inr res \<and>
           node_array res = ns @ map (\<lambda>r. public_node (node_of_bytes L r)) recs \<and>
           barrier_node_list res =
             bs @ map of_nat (filter (\<lambda>k. barrier (node_of_bytes L (recs ! k))) [0..<unat n]) \<and>
           traffic_light_node_list res =
             ts @ map of_nat (filter (\<lambda>k. traffic_lights (node_of_bytes L (recs ! k))) [0..<unat n]) \<and>
           (length (node_array res) = unat n \<longleftrightarrow> ns = []) \<and>
           (\<forall>i < unat n.
              node_array res ! (length ns + i) = public_node (node_of_bytes L (recs ! i)) \<and>
              (length ns + i = i \<longleftrightarrow> ns = []))"
  using assms
  by (simp add: loadNodes_records [where fp = fp and hdr = hdr and recs = recs and rest = rest])

theorem node_loader_appends_to_its_containers_witness:
  "\<exists>res. loadNodesFromFile byte_layout [] []
           \<lparr>data = [79, 83, 82, 77, 1, 0, 0, 0, 10, 20, 7, 1, 0],
            failed = False, throws = False\<rparr> [5] [] [\<lparr>lon = 1, lat = 2, node_id = 3\<rparr>] = Inr res \<and>
         node_array res = [\<lparr>lon = 1, lat = 2, node_id = 3\<rparr>, \<lparr>lon = 10, lat = 20, node_id = 7\<rparr>] \<and>
         barrier_node_list res = [5, 0] \<and>
         length (node_array res) \<noteq> 1 \<and>
         node_array res ! 0 = \<lparr>lon = 1, lat = 2, node_id = 3\<rparr> \<and>
         node_array res ! 1 = \<lparr>lon = 10, lat = 20, node_id = 7\<rparr>"
  using node_loader_appends_to_its_containers
    [where L = byte_layout and fingerprint_init = "[]" and n_init = "[]"
      and s = "\<lparr>data = [79, 83, 82, 77, 1, 0, 0, 0, 10, 20, 7, 1, 0],
                 failed = False, throws = False\<rparr>"
      and fp = "[79, 83, 82, 77]" and hdr = "[1, 0, 0, 0]"
      and recs = "[[10, 20, 7, 1, 0]]" and rest = "[]" and n = 1
      and bs = "[5]" and ts = "[]" and ns = "[\<lparr>lon = 1, lat = 2, node_id = 3\<rparr>]"]
  by (auto simp: byte_layout_def byte_node_def public_node_def)

section \<open>The edge loader on a complete stream\<close>

text \<open>
  C3, as stated, fails at \<open>m = 0\<close>: on the stream that declares no edges, a build with
  assertions aborts at \<^verbatim>\<open>BOOST_ASSERT(edge_list.size() > 0)\<close> and returns nothing.
\<close>

theorem edge_loader_empty_list_aborts:
  "loadEdgesFromFile byte_layout False []
     \<lparr>data = [0, 0, 0, 0], failed = False, throws = False\<rparr> [] = Inl AssertionFailed"
  by code_simp

text \<open>
  C3, as the code has it. On a stream that holds the count \<open>m\<close> and \<open>m\<close> edge records, a
  build without assertions (\<open>NDEBUG\<close>) returns \<open>m\<close> and leaves exactly \<open>m\<close> elements in the
  container, in the order of the file. A build with assertions does so exactly when
  \<open>m > 0\<close> and the sorted edges pass the assertions, and then leaves the \<open>m\<close> edges sorted;
  otherwise it aborts.
\<close>

theorem edge_loader_returns_m_edges:
  assumes "\<not> failed s"
    and "data s = hdr @ concat recs @ rest"
    and "length hdr = 4" and "u32_of_bytes L hdr = m"
    and "length recs = unat m"
    and "\<forall>r \<in> set recs. length r = sizeof_NodeBasedEdge L"
  shows "(\<exists>res. loadEdgesFromFile L True m_init s edges = Inr res \<and>
            edges_return res = m \<and> length (edge_list res) = unat m \<and>
            edge_list res = map (edge_of_bytes L) recs) \<and>
         (if 0 < m \<and> check_edges L 1 (sort_key edge_key (map (edge_of_bytes L) recs)) = Inr ()
          then \<exists>res. loadEdgesFromFile L False m_init s edges = Inr res \<and>
                 edges_return res = m \<and> length (edge_list res) = unat m \<and>
                 edge_list res = sort_key edge_key (map (edge_of_bytes L) recs)
          else loadEdgesFromFile L False m_init s edges = Inl AssertionFailed)"
proof -
  note run = loadEdges_records [OF assms, of _ m_init edges]
  have release: "\<exists>res. loadEdgesFromFile L True m_init s edges = Inr res \<and>
            edges_return res = m \<and> length (edge_list res) = unat m \<and>
            edge_list res = map (edge_of_bytes L) recs"
    using assms(5) by (simp add: run)
  have debug: "if 0 < m \<and> check_edges L 1 (sort_key edge_key (map (edge_of_bytes L) recs)) = Inr ()
          then \<exists>res. loadEdgesFromFile L False m_init s edges = Inr res \<and>
                 edges_return res = m \<and> length (edge_list res) = unat m \<and>
                 edge_list res = sort_key edge_key (map (edge_of_bytes L) recs)
          else loadEdgesFromFile L False m_init s edges = Inl AssertionFailed"
    using assms(5) check_edges_outcome [of L 1 "sort_key edge_key (map (edge_of_bytes L) recs)"]
    by (auto simp: run word_greater_zero_iff)
  from release debug show ?thesis
    by (rule conjI)
qed

theorem edge_loader_returns_m_edges_witness:
  "(\<exists>res. loadEdgesFromFile byte_layout True []
            \<lparr>data = [2, 0, 0, 0, 1, 2, 1, 1, 1, 0, 3, 1, 1, 1], failed = False, throws = False\<rparr> []
            = Inr res \<and>
          edges_return res = 2 \<and> length (edge_list res) = 2 \<and>
          map source (edge_list res) = [1, 0]) \<and>
   (\<exists>res. loadEdgesFromFile byte_layout False []
            \<lparr>data = [2, 0, 0, 0, 1, 2, 1, 1, 1, 0, 3, 1, 1, 1], failed = False, throws = False\<rparr> []
            = Inr res \<and>
          edges_return res = 2 \<and> length (edge_list res) = 2 \<and>
          map source (edge_list res) = [0, 1])"
proof -
  have sorted_edges: "sort_key edge_key (map byte_edge [[1, 2, 1, 1, 1], [0, 3, 1, 1, 1]]) =
      [byte_edge [0, 3, 1, 1, 1], byte_edge [1, 2, 1, 1, 1]]"
    by (simp add: edge_key_def byte_edge_def)
  have checked: "check_edges byte_layout 1 [byte_edge [0, 3, 1, 1, 1], byte_edge [1, 2, 1, 1, 1]] = Inr ()"
    by (simp add: check_edges.simps byte_layout_def byte_edge_def)
  show ?thesis
    using edge_loader_returns_m_edges
      [where L = byte_layout and m_init = "[]" and edges = "[]"
        and s = "\<lparr>data = [2, 0, 0, 0, 1, 2, 1, 1, 1, 0, 3, 1, 1, 1],
                   failed = False, throws = False\<rparr>"
        and hdr = "[2, 0, 0, 0]" and recs = "[[1, 2, 1, 1, 1], [0, 3, 1, 1, 1]]"
        and rest = "[]" and m = 2]
      sorted_edges checked
    by (auto simp: byte_layout_def byte_edge_def)
qed

text \<open>
  C6. The stream holds \<open>m\<close> edge records of which two, at positions \<open>i < j\<close>, have the same
  source and the same target. A build with assertions aborts; a build without them returns
  \<open>m\<close> with both edges in the container.
\<close>

theorem duplicate_edge_aborts_validation:
  assumes "\<not> failed s"
    and "data s = hdr @ concat recs @ rest"
    and "length hdr = 4" and "u32_of_bytes L hdr = m"
    and "length recs = unat m"
    and "\<forall>r \<in> set recs. length r = sizeof_NodeBasedEdge L"
    and "i < j" and "j < unat m"
    and "source (edge_of_bytes L (recs ! i)) = source (edge_of_bytes L (recs ! j))"
    and "target (edge_of_bytes L (recs ! i)) = target (edge_of_bytes L (recs ! j))"
  shows "loadEdgesFromFile L False m_init s edges = Inl AssertionFailed \<and>
         (\<exists>res. loadEdgesFromFile L True m_init s edges = Inr res \<and>
            edges_return res = m \<and> length (edge_list res) = unat m \<and>
            edge_list res ! i = edge_of_bytes L (recs ! i) \<and>
            edge_list res ! j = edge_of_bytes L (recs ! j))"
proof -
  let ?loaded = "map (edge_of_bytes L) recs"
  have "i < j" "j < length ?loaded" "edge_key (?loaded ! i) = edge_key (?loaded ! j)"
    using assms by (simp_all add: edge_key_def)
  then have "check_edges L 1 (sort_key edge_key ?loaded) = Inl AssertionFailed"
    by (rule check_edges_duplicate)
  then have "loadEdgesFromFile L False m_init s edges = Inl AssertionFailed"
    by (simp add: loadEdges_records [OF assms(1-6)])
  moreover have "\<exists>res. loadEdgesFromFile L True m_init s edges = Inr res \<and>
            edges_return res = m \<and> length (edge_list res) = unat m \<and>
            edge_list res ! i = edge_of_bytes L (recs ! i) \<and>
            edge_list res ! j = edge_of_bytes L (recs ! j)"
    using assms(5,7,8) by (simp add: loadEdges_records [OF assms(1-6)])
  ultimately show ?thesis
    by (rule conjI)
qed

theorem duplicate_edge_aborts_validation_witness:
  "loadEdgesFromFile byte_layout False []
     \<lparr>data = [2, 0, 0, 0, 1, 2, 1, 1, 1, 1, 2, 3, 1, 1], failed = False, throws = False\<rparr> []
     = Inl AssertionFailed \<and>
   (\<exists>res. loadEdgesFromFile byte_layout True []
            \<lparr>data = [2, 0, 0, 0, 1, 2, 1, 1, 1, 1, 2, 3, 1, 1], failed = False, throws = False\<rparr> []
            = Inr res \<and>
          edges_return res = 2 \<and> length (edge_list res) = 2 \<and>
          edge_list res ! 0 = \<lparr>source = 1, target = 2, weight = 1, forward = True, travel_mode = 1\<rparr> \<and>
          edge_list res ! 1 = \<lparr>source = 1, target = 2, weight = 3, forward = True, travel_mode = 1\<rparr>)"
  using duplicate_edge_aborts_validation
    [where L = byte_layout and m_init = "[]" and edges = "[]"
      and s = "\<lparr>data = [2, 0, 0, 0, 1, 2, 1, 1, 1, 1, 2, 3, 1, 1],
                 failed = False, throws = False\<rparr>"
      and hdr = "[2, 0, 0, 0]" and recs = "[[1, 2, 1, 1, 1], [1, 2, 3, 1, 1]]"
      and rest = "[]" and m = 2 and i = 0 and j = 1]
  by (simp add: byte_layout_def byte_edge_def)

text \<open>
  C10. The loop over the sorted container passes exactly when the edges at the positions
  \<open>1, \<dots>, m - 1\<close> have a positive weight, are forward, are accessible, are no self-loops
  and differ in source or target from their predecessor: no condition is put on weight,
  direction, travel mode or self-loop of the edge at position 0. Hence a list of one edge
  loads in a build with assertions whatever that edge is.
\<close>

theorem first_sorted_edge_is_not_checked:
  "(check_edges L 1 es = Inr () \<longleftrightarrow>
      (\<forall>k. 1 \<le> k \<and> k < length es \<longrightarrow>
         weight (es ! k) > 0 \<and> forward (es ! k) \<and>
         travel_mode (es ! k) \<noteq> TRAVEL_MODE_INACCESSIBLE L \<and>
         source (es ! k) \<noteq> target (es ! k) \<and>
         (source (es ! k) \<noteq> source (es ! (k - 1)) \<or>
          target (es ! k) \<noteq> target (es ! (k - 1))))) \<and>
   (\<not> failed s \<and> data s = hdr @ r @ rest \<and> length hdr = 4 \<and> u32_of_bytes L hdr = 1 \<and>
    length r = sizeof_NodeBasedEdge L \<longrightarrow>
      (\<exists>res. loadEdgesFromFile L False m_init s edges = Inr res \<and>
         edges_return res = 1 \<and> edge_list res = [edge_of_bytes L r]))"
proof (rule conjI)
  show "check_edges L 1 es = Inr () \<longleftrightarrow>
      (\<forall>k. 1 \<le> k \<and> k < length es \<longrightarrow>
         weight (es ! k) > 0 \<and> forward (es ! k) \<and>
         travel_mode (es ! k) \<noteq> TRAVEL_MODE_INACCESSIBLE L \<and>
         source (es ! k) \<noteq> target (es ! k) \<and>
         (source (es ! k) \<noteq> source (es ! (k - 1)) \<or>
          target (es ! k) \<noteq> target (es ! (k - 1))))"
    by (rule check_edges_iff)
next
  show "\<not> failed s \<and> data s = hdr @ r @ rest \<and> length hdr = 4 \<and> u32_of_bytes L hdr = 1 \<and>
    length r = sizeof_NodeBasedEdge L \<longrightarrow>
      (\<exists>res. loadEdgesFromFile L False m_init s edges = Inr res \<and>
         edges_return res = 1 \<and> edge_list res = [edge_of_bytes L r])"
  proof
    assume wf: "\<not> failed s \<and> data s = hdr @ r @ rest \<and> length hdr = 4 \<and>
      u32_of_bytes L hdr = 1 \<and> length r = sizeof_NodeBasedEdge L"
    have single: "check_edges L 1 [edge_of_bytes L r] = Inr ()"
      by (subst check_edges.simps) simp
    have "loadEdgesFromFile L False m_init s edges =
        (if False then
        Inr \<lparr>edges_return = 1, edges_stream = s\<lparr>data := rest\<rparr>,
             edge_list = map (edge_of_bytes L) [r],
             edges_log = [And_edges 1, Graph_loaded_ok (unat (1 :: 32 word))]\<rparr>
      else if (1 :: 32 word) = 0 then Inl AssertionFailed
      else
        (case check_edges L 1 (sort_key edge_key (map (edge_of_bytes L) [r])) of
           Inl e \<Rightarrow> Inl e
         | Inr u \<Rightarrow>
             Inr \<lparr>edges_return = 1, edges_stream = s\<lparr>data := rest\<rparr>,
                  edge_list = sort_key edge_key (map (edge_of_bytes L) [r]),
                  edges_log = [And_edges 1, Validating_loaded_edges,
                    Graph_loaded_ok (unat (1 :: 32 word))]\<rparr>))"
    proof (rule loadEdges_records)
      show "\<not> failed s" and "data s = hdr @ concat [r] @ rest" and "length hdr = 4"
        and "u32_of_bytes L hdr = 1" and "length [r] = unat (1 :: 32 word)"
        and "\<forall>x \<in> set [r]. length x = sizeof_NodeBasedEdge L"
        using wf by simp_all
    qed
    with single show "\<exists>res. loadEdgesFromFile L False m_init s edges = Inr res \<and>
         edges_return res = 1 \<and> edge_list res = [edge_of_bytes L r]"
      by simp
  qed
qed

theorem first_sorted_edge_is_not_checked_witness:
  "check_edges byte_layout 1
     [\<lparr>source = 5, target = 5, weight = 0, forward = False, travel_mode = 0\<rparr>] = Inr () \<and>
   (\<exists>res. loadEdgesFromFile byte_layout False []
            \<lparr>data = [1, 0, 0, 0, 5, 5, 0, 0, 0], failed = False, throws = False\<rparr> [] = Inr res \<and>
          edges_return res = 1 \<and>
          edge_list res =
            [\<lparr>source = 5, target = 5, weight = 0, forward = False,
              travel_mode = TRAVEL_MODE_INACCESSIBLE byte_layout\<rparr>])"
  using first_sorted_edge_is_not_checked
    [where L = byte_layout and m_init = "[]" and edges = "[]"
      and es = "[\<lparr>source = 5, target = 5, weight = 0, forward = False, travel_mode = 0\<rparr>]"
      and s = "\<lparr>data = [1, 0, 0, 0, 5, 5, 0, 0, 0], failed = False, throws = False\<rparr>"
      and hdr = "[1, 0, 0, 0]" and r = "[5, 5, 0, 0, 0]" and rest = "[]"]
  by (simp add: byte_layout_def byte_edge_def)

text \<open>
  C2. The code differs from the claim: the edge list (1, 2), (0, 0) contains the self-loop
  (0, 0), which the sort puts at position 0, where the loop does not look; the build with
  assertions returns 2.
\<close>

theorem self_loop_first_in_sorted_order_loads:
  "loadEdgesFromFile byte_layout False []
     \<lparr>data = [2, 0, 0, 0, 1, 2, 1, 1, 1, 0, 0, 1, 1, 1], failed = False, throws = False\<rparr> [] =
   Inr \<lparr>edges_return = 2, edges_stream = \<lparr>data = [], failed = False, throws = False\<rparr>,
        edge_list =
          [\<lparr>source = 0, target = 0, weight = 1, forward = True, travel_mode = 1\<rparr>,
           \<lparr>source = 1, target = 2, weight = 1, forward = True, travel_mode = 1\<rparr>],
        edges_log = [And_edges 2, Validating_loaded_edges, Graph_loaded_ok 2]\<rparr>"
  by code_simp

section \<open>Streams that end before the declared count\<close>

text \<open>
  C1. The code differs from the claim for the node and the edge loader, which never test
  the state of the stream. The node stream below declares two nodes and holds one: the
  loader returns 2 and a container of two nodes, the second a repetition of the first. The
  edge stream declares two edges and holds one: the loader returns 2 and a container of
  two edges, the second the value-initialised one.
\<close>

theorem truncated_streams_load_without_error:
  "loadNodesFromFile byte_layout [] []
     \<lparr>data = [79, 83, 82, 77, 2, 0, 0, 0, 10, 20, 7, 1, 0], failed = False, throws = False\<rparr>
     [] [] [] =
   Inr \<lparr>nodes_return = 2, nodes_stream = \<lparr>data = [], failed = True, throws = False\<rparr>,
        barrier_node_list = [0, 1], traffic_light_node_list = [],
        node_array = [\<lparr>lon = 10, lat = 20, node_id = 7\<rparr>, \<lparr>lon = 10, lat = 20, node_id = 7\<rparr>],
        nodes_log = [Importing_nodes 2]\<rparr> \<and>
   loadEdgesFromFile byte_layout True []
     \<lparr>data = [2, 0, 0, 0, 1, 2, 1, 1, 1], failed = False, throws = False\<rparr> [] =
   Inr \<lparr>edges_return = 2, edges_stream = \<lparr>data = [], failed = True, throws = False\<rparr>,
        edge_list =
          [\<lparr>source = 1, target = 2, weight = 1, forward = True, travel_mode = 1\<rparr>,
           \<lparr>source = 0, target = 0, weight = 0, forward = False, travel_mode = 0\<rparr>],
        edges_log = [And_edges 2, Graph_loaded_ok 2]\<rparr>"
proof (rule conjI)
  show "loadNodesFromFile byte_layout [] []
     \<lparr>data = [79, 83, 82, 77, 2, 0, 0, 0, 10, 20, 7, 1, 0], failed = False, throws = False\<rparr>
     [] [] [] =
   Inr \<lparr>nodes_return = 2, nodes_stream = \<lparr>data = [], failed = True, throws = False\<rparr>,
        barrier_node_list = [0, 1], traffic_light_node_list = [],
        node_array = [\<lparr>lon = 10, lat = 20, node_id = 7\<rparr>, \<lparr>lon = 10, lat = 20, node_id = 7\<rparr>],
        nodes_log = [Importing_nodes 2]\<rparr>"
    by code_simp
next
  show "loadEdgesFromFile byte_layout True []
     \<lparr>data = [2, 0, 0, 0, 1, 2, 1, 1, 1], failed = False, throws = False\<rparr> [] =
   Inr \<lparr>edges_return = 2, edges_stream = \<lparr>data = [], failed = True, throws = False\<rparr>,
        edge_list =
          [\<lparr>source = 1, target = 2, weight = 1, forward = True, travel_mode = 1\<rparr>,
           \<lparr>source = 0, target = 0, weight = 0, forward = False, travel_mode = 0\<rparr>],
        edges_log = [And_edges 2, Graph_loaded_ok 2]\<rparr>"
    by code_simp
qed

text \<open>
  The same two streams with \<^verbatim>\<open>failbit\<close> in the exception mask: the short read throws, and
  the call ends with the exception of the stream.
\<close>

lemma truncated_streams_throw_with_exception_mask:
  "loadNodesFromFile byte_layout [] []
     \<lparr>data = [79, 83, 82, 77, 2, 0, 0, 0, 10, 20, 7, 1, 0], failed = False, throws = True\<rparr>
     [] [] [] = Inl IosFailure"
  "loadEdgesFromFile byte_layout True []
     \<lparr>data = [2, 0, 0, 0, 1, 2, 1, 1, 1], failed = False, throws = True\<rparr> [] = Inl IosFailure"
  by code_simp+

section \<open>The restriction loader\<close>

text \<open>
  The restriction loader reads through the scoped file reader, whose reads fail on a file
  that is too short: a restriction file that declares more records than it holds gives a
  format error.
\<close>

lemma restriction_loader_truncated:
  assumes "fs filename = Some (fp @ hdr @ body)"
    and "length fp = sizeof_FingerPrint L" and "TestContractor L fp (GetValid L)"
    and "length hdr = 4" and "u32_of_bytes L hdr = n"
    and "length body < unat n * sizeof_TurnRestriction L"
  shows "fst (loadRestrictionsFromFile L fs filename restriction_list) = Inl FormatError"
proof -
  from assms(6) have "unat n \<noteq> 0"
    by (cases "unat n") simp_all
  then have "0 < n"
    by (simp add: word_greater_zero_iff unat_eq_0)
  with assms show ?thesis
    by (simp add: loadRestrictionsFromFile_def FileReader_open_def ReadElementCount32_def
        ReadInto_def Let_def)
qed

text \<open>
  C7. When the fingerprint of the restriction file does not pass the test against the
  expected value, the restriction loader fails with a format error and leaves
  \<^verbatim>\<open>restriction_list\<close> as it was, whatever follows the fingerprint in the file.
\<close>

theorem restriction_loader_fails_closed:
  assumes "fs filename = Some content"
    and "\<not> TestContractor L (take (sizeof_FingerPrint L) content) (GetValid L)"
  shows "loadRestrictionsFromFile L fs filename restriction_list = (Inl FormatError, restriction_list)"
  using assms by (simp add: loadRestrictionsFromFile_def FileReader_open_def)

theorem restriction_loader_fails_closed_witness:
  "loadRestrictionsFromFile byte_layout [''map.osrm.restrictions'' \<mapsto> [79, 83, 82, 78, 1, 0, 0, 0, 1, 2, 3]]
     ''map.osrm.restrictions'' [] = (Inl FormatError, []) \<and>
   loadRestrictionsFromFile byte_layout [''map.osrm.restrictions'' \<mapsto> [79, 83, 82, 77, 1, 0, 0, 0, 1, 2, 3]]
     ''map.osrm.restrictions'' [] = (Inr 1, [\<lparr>via_node = 1, from_node = 2, to_node = 3\<rparr>])"
proof (rule conjI)
  show "loadRestrictionsFromFile byte_layout [''map.osrm.restrictions'' \<mapsto> [79, 83, 82, 78, 1, 0, 0, 0, 1, 2, 3]]
     ''map.osrm.restrictions'' [] = (Inl FormatError, [])"
    using restriction_loader_fails_closed
      [where L = byte_layout and filename = "''map.osrm.restrictions''"
        and fs = "[''map.osrm.restrictions'' \<mapsto> [79, 83, 82, 78, 1, 0, 0, 0, 1, 2, 3]]"
        and content = "[79, 83, 82, 78, 1, 0, 0, 0, 1, 2, 3]" and restriction_list = "[]"]
    by (simp add: byte_layout_def)
next
  show "loadRestrictionsFromFile byte_layout [''map.osrm.restrictions'' \<mapsto> [79, 83, 82, 77, 1, 0, 0, 0, 1, 2, 3]]
     ''map.osrm.restrictions'' [] = (Inr 1, [\<lparr>via_node = 1, from_node = 2, to_node = 3\<rparr>])"
    by code_simp
qed

end
